theory Spec2Isabelle
  imports Main "HOL-Library.Word"
begin

unbundle bit_operations_syntax

section \<open>Data model of target-riscv/translate.c\<close>

text \<open>
  The embedding follows the 64-bit build (\<^verbatim>\<open>TARGET_RISCV64\<close>): \<^verbatim>\<open>target_ulong\<close> is a
  64-bit unsigned integer, so \<^verbatim>\<open>ctx.pc += 4\<close> and the page arithmetic wrap modulo
  \<open>2 ^ 64\<close>.
\<close>

type_synonym target_ulong = "64 word"
type_synonym uint32_t = "32 word"

text \<open>
  \<^verbatim>\<open>enum { BS_NONE = 0, BS_STOP = 1, BS_BRANCH = 2 }\<close>, the values of
  \<^verbatim>\<open>DisasContext.bstate\<close>.
\<close>

datatype bstate_t = BS_NONE | BS_STOP | BS_BRANCH

text \<open>
  \<^verbatim>\<open>struct TranslationBlock\<close> is declared outside translate.c; these are the four fields
  the file touches. \<open>tb_size\<close> holds \<^verbatim>\<open>ctx.pc - pc_start\<close> at the width of the
  subtraction, \<open>tb_icount\<close> holds \<^verbatim>\<open>num_insns\<close> as the \<^verbatim>\<open>int\<close> it is.
\<close>

record TranslationBlock =
  tb_pc :: target_ulong
  tb_cflags :: uint32_t
  tb_size :: target_ulong
  tb_icount :: int

text \<open>\<^verbatim>\<open>typedef struct DisasContext\<close>, field for field.\<close>

record DisasContext =
  tb :: TranslationBlock
  pc :: target_ulong
  opcode :: uint32_t
  singlestep_enabled :: int
  mem_idx :: int
  bstate :: bstate_t

text \<open>
  The IR stream. Every TCG emitter the file calls appends one operation; the stream is a
  list in emission order.
  \<^item> \<open>insn_start a\<close>: \<^verbatim>\<open>tcg_gen_insn_start(a)\<close>;
  \<^item> \<open>movi_PC v\<close>: \<^verbatim>\<open>tcg_gen_movi_tl(cpu_PC, v)\<close>;
  \<^item> \<open>raise_exception e\<close>: \<^verbatim>\<open>gen_helper_raise_exception(cpu_env, e)\<close>;
  \<^item> \<open>raise_exception_mbadaddr e\<close>: \<^verbatim>\<open>gen_helper_raise_exception_mbadaddr(cpu_env, e, cpu_PC)\<close>;
  \<^item> \<open>raise_exception_debug\<close>: \<^verbatim>\<open>gen_helper_raise_exception_debug(cpu_env)\<close>;
  \<^item> \<open>goto_tb n\<close>: \<^verbatim>\<open>tcg_gen_goto_tb(n)\<close>, the patchable jump of a chained exit;
  \<^item> \<open>exit_tb None\<close>: \<^verbatim>\<open>tcg_gen_exit_tb(0)\<close>, the plain return to the dispatcher;
    \<open>exit_tb (Some n)\<close>: \<^verbatim>\<open>tcg_gen_exit_tb((uintptr_t)ctx->tb + n)\<close>;
  \<^item> \<open>io_start\<close>, \<open>io_end\<close>, \<open>tb_start\<close>, \<open>tb_end n\<close>: what \<^verbatim>\<open>gen_io_start()\<close>,
    \<^verbatim>\<open>gen_io_end()\<close>, \<^verbatim>\<open>gen_tb_start(tb)\<close> and \<^verbatim>\<open>gen_tb_end(tb, n)\<close> of
    exec/gen-icount.h emit, kept opaque.
\<close>

datatype tcg_op =
    insn_start target_ulong
  | movi_PC target_ulong
  | raise_exception int
  | raise_exception_mbadaddr int
  | raise_exception_debug
  | goto_tb int
  | exit_tb "int option"
  | io_start
  | io_end
  | tb_start
  | tb_end int

text \<open>
  The constants and build switches the file takes from headers that are not part of it.
  They are parameters of every function that uses them.
  \<^item> \<open>TARGET_PAGE_BITS\<close>: the guest page is \<open>2 ^ TARGET_PAGE_BITS\<close> bytes;
  \<^item> \<open>CF_COUNT_MASK\<close>, \<open>CF_LAST_IO\<close>: the masks applied to \<^verbatim>\<open>tb->cflags\<close>;
  \<^item> \<open>TCG_MAX_INSNS\<close>: the upper limit of \<^verbatim>\<open>max_insns\<close>;
  \<^item> \<open>CONFIG_USER_ONLY\<close>: whether the preprocessor symbol is defined.
\<close>

record build_config =
  TARGET_PAGE_BITS :: nat
  CF_COUNT_MASK :: uint32_t
  CF_LAST_IO :: uint32_t
  TCG_MAX_INSNS :: int
  CONFIG_USER_ONLY :: bool

text \<open>
  Modelled from the spec: \<^verbatim>\<open>TARGET_PAGE_SIZE\<close> and \<^verbatim>\<open>TARGET_PAGE_MASK\<close> are macros of a
  header outside translate.c. The spec's guest page is the granularity of the guest
  address space, so the size is \<open>1 << TARGET_PAGE_BITS\<close> and the mask clears the offset
  within the page, \<open>~(TARGET_PAGE_SIZE - 1)\<close>.
\<close>

definition TARGET_PAGE_SIZE :: "build_config \<Rightarrow> target_ulong" where
  "TARGET_PAGE_SIZE K = push_bit (TARGET_PAGE_BITS K) 1"

definition TARGET_PAGE_MASK :: "build_config \<Rightarrow> target_ulong" where
  "TARGET_PAGE_MASK K = NOT (TARGET_PAGE_SIZE K - 1)"

section \<open>Exception emitters\<close>

text \<open>
  The emitters return the operations they append. \<^verbatim>\<open>kill_unknown\<close> also updates the
  context, so it returns both.
\<close>

definition generate_exception :: "DisasContext \<Rightarrow> int \<Rightarrow> tcg_op list" where
  "generate_exception ctx excp = [movi_PC (pc ctx), raise_exception excp]"

definition generate_exception_mbadaddr :: "DisasContext \<Rightarrow> int \<Rightarrow> tcg_op list" where
  "generate_exception_mbadaddr ctx excp = [movi_PC (pc ctx), raise_exception_mbadaddr excp]"

definition kill_unknown :: "DisasContext \<Rightarrow> int \<Rightarrow> tcg_op list \<times> DisasContext" where
  "kill_unknown ctx excp = (generate_exception ctx excp, ctx\<lparr>bstate := BS_STOP\<rparr>)"

section \<open>Block exit: chaining\<close>

definition use_goto_tb :: "build_config \<Rightarrow> DisasContext \<Rightarrow> target_ulong \<Rightarrow> bool" where
  "use_goto_tb K ctx dest =
     (if singlestep_enabled ctx \<noteq> 0 then False
      else if \<not> CONFIG_USER_ONLY K
        then (tb_pc (tb ctx) AND TARGET_PAGE_MASK K) = (dest AND TARGET_PAGE_MASK K)
        else True)"

definition gen_goto_tb :: "build_config \<Rightarrow> DisasContext \<Rightarrow> int \<Rightarrow> target_ulong \<Rightarrow> tcg_op list" where
  "gen_goto_tb K ctx n dest =
     (if use_goto_tb K ctx dest
      then [goto_tb n, movi_PC dest, exit_tb (Some n)]
      else [movi_PC dest]
           @ (if singlestep_enabled ctx \<noteq> 0 then [raise_exception_debug] else [])
           @ [exit_tb None])"

text \<open>
  The guest page of an address, as a number: the spec's ``same guest page'' is equality
  of page numbers.
\<close>

definition page_of :: "build_config \<Rightarrow> target_ulong \<Rightarrow> nat" where
  "page_of K a = unat a div 2 ^ TARGET_PAGE_BITS K"

section \<open>The translation loop\<close>

text \<open>
  What \<^verbatim>\<open>gen_intermediate_code\<close> reads from outside the file while it builds one block:
  \<^item> \<open>cs_singlestep_enabled\<close>: \<^verbatim>\<open>cs->singlestep_enabled\<close>;
  \<^item> \<open>cpu_breakpoint_test a\<close>: \<^verbatim>\<open>cpu_breakpoint_test(cs, a, BP_ANY)\<close>;
  \<^item> \<open>cpu_ldl_code a\<close>: the instruction word \<^verbatim>\<open>cpu_ldl_code(env, a)\<close>;
  \<^item> \<open>cpu_mmu_index\<close>: \<^verbatim>\<open>cpu_mmu_index(env, false)\<close>;
  \<^item> \<open>tcg_op_buf_full\<close>: \<^verbatim>\<open>tcg_op_buf_full()\<close>, a function of the operations emitted so far;
  \<^item> \<open>singlestep\<close>: the global \<^verbatim>\<open>singlestep\<close> flag.
\<close>

record translate_env =
  cs_singlestep_enabled :: int
  cpu_breakpoint_test :: "target_ulong \<Rightarrow> bool"
  cpu_ldl_code :: "target_ulong \<Rightarrow> uint32_t"
  cpu_mmu_index :: int
  tcg_op_buf_full :: "tcg_op list \<Rightarrow> bool"
  singlestep :: int

text \<open>
  The state threaded through the loop: the context, the local \<^verbatim>\<open>num_insns\<close>, the IR
  emitted so far, and \<open>fetched\<close>, the log of the addresses passed to
  \<^verbatim>\<open>cpu_ldl_code\<close> (the instructions fetched and handed to \<^verbatim>\<open>decode_opc\<close>), oldest
  first.
\<close>

record gen_state =
  ctx :: DisasContext
  num_insns :: int
  ops :: "tcg_op list"
  fetched :: "target_ulong list"

definition emit :: "tcg_op list \<Rightarrow> gen_state \<Rightarrow> gen_state" where
  "emit xs s = s\<lparr>ops := ops s @ xs\<rparr>"

text \<open>\<^verbatim>\<open>decode_opc\<close> has an empty body: it leaves the context as it is and emits nothing.\<close>

definition decode_opc :: "translate_env \<Rightarrow> DisasContext \<Rightarrow> DisasContext \<times> tcg_op list" where
  "decode_opc E c = (c, [])"

text \<open>
  The five \<^verbatim>\<open>break\<close> tests that end an iteration, and how control leaves the body of the
  \<^verbatim>\<open>while\<close>: around again, out through a \<^verbatim>\<open>break\<close> (with the test that fired), or by
  \<^verbatim>\<open>goto done_generating\<close>.
\<close>

datatype break_cause =
    Break_cs_singlestep
  | Break_page_end
  | Break_op_buf_full
  | Break_max_insns
  | Break_singlestep

datatype control = Continue | Break break_cause | Goto_done_generating

definition loop_checks :: "translate_env \<Rightarrow> int \<Rightarrow> target_ulong \<Rightarrow> gen_state \<Rightarrow> control" where
  "loop_checks E max_insns next_page_start s =
     (if cs_singlestep_enabled E \<noteq> 0 then Break Break_cs_singlestep
      else if pc (ctx s) \<ge> next_page_start then Break Break_page_end
      else if tcg_op_buf_full E (ops s) then Break Break_op_buf_full
      else if num_insns s \<ge> max_insns then Break Break_max_insns
      else if singlestep E \<noteq> 0 then Break Break_singlestep
      else Continue)"

definition loop_body ::
  "build_config \<Rightarrow> translate_env \<Rightarrow> TranslationBlock \<Rightarrow> int \<Rightarrow> target_ulong \<Rightarrow> gen_state
     \<Rightarrow> control \<times> gen_state" where
  "loop_body K E tb0 max_insns next_page_start s =
     (let s1 = (emit [insn_start (pc (ctx s))] s)\<lparr>num_insns := num_insns s + 1\<rparr> in
      if cpu_breakpoint_test E (pc (ctx s1)) then
        let s2 = emit [movi_PC (pc (ctx s1))] s1;
            s3 = s2\<lparr>ctx := (ctx s2)\<lparr>bstate := BS_BRANCH\<rparr>\<rparr>;
            s4 = emit [raise_exception_debug] s3;
            s5 = s4\<lparr>ctx := (ctx s4)\<lparr>pc := pc (ctx s4) + 4\<rparr>\<rparr>
        in (Goto_done_generating, s5)
      else
        let s2 = (if num_insns s1 = max_insns \<and> tb_cflags tb0 AND CF_LAST_IO K \<noteq> 0
                  then emit [io_start] s1 else s1);
            s3 = s2\<lparr>ctx := (ctx s2)\<lparr>opcode := cpu_ldl_code E (pc (ctx s2))\<rparr>,
                    fetched := fetched s2 @ [pc (ctx s2)]\<rparr>;
            s4 = (emit (snd (decode_opc E (ctx s3))) s3)\<lparr>ctx := fst (decode_opc E (ctx s3))\<rparr>;
            s5 = s4\<lparr>ctx := (ctx s4)\<lparr>pc := pc (ctx s4) + 4\<rparr>\<rparr>
        in (loop_checks E max_insns next_page_start s5, s5))"

text \<open>How the \<^verbatim>\<open>while\<close> loop was left.\<close>

datatype loop_end = While_false | Broke break_cause | Jumped_done_generating

function translate_loop ::
  "build_config \<Rightarrow> translate_env \<Rightarrow> TranslationBlock \<Rightarrow> int \<Rightarrow> target_ulong \<Rightarrow> gen_state
     \<Rightarrow> loop_end \<times> gen_state" where
  "translate_loop K E tb0 max_insns next_page_start s =
     (if bstate (ctx s) \<noteq> BS_NONE then (While_false, s)
      else case loop_body K E tb0 max_insns next_page_start s of
             (Continue, s') \<Rightarrow> translate_loop K E tb0 max_insns next_page_start s'
           | (Break c, s') \<Rightarrow> (Broke c, s')
           | (Goto_done_generating, s') \<Rightarrow> (Jumped_done_generating, s'))"
  by pat_completeness auto
termination
proof (relation "measure (\<lambda>(K, E, tb0, max_insns, nps, s). nat (max_insns - num_insns s))")
  show "wf (measure (\<lambda>(K, E, tb0, max_insns, nps, s). nat (max_insns - num_insns s)))"
    by simp
next
  fix K E tb0 max_insns nps s x s'
  assume "(x, s') = loop_body K E tb0 max_insns nps s" and "x = Continue"
  then have "loop_body K E tb0 max_insns nps s = (Continue, s')" by simp
  then have "num_insns s' = num_insns s + 1 \<and> num_insns s' < max_insns"
    by (auto simp add: loop_body_def loop_checks_def emit_def decode_opc_def Let_def
        split: if_splits)
  then show "((K, E, tb0, max_insns, nps, s'), (K, E, tb0, max_insns, nps, s))
          \<in> measure (\<lambda>(K, E, tb0, max_insns, nps, s). nat (max_insns - num_insns s))"
    by simp
qed

declare translate_loop.simps [simp del]

section \<open>Block exit and the whole build\<close>

text \<open>
  \<^verbatim>\<open>max_insns\<close> as computed at the top of \<^verbatim>\<open>gen_intermediate_code\<close>; the masked flags are
  converted to \<^verbatim>\<open>int\<close>.
\<close>

definition compute_max_insns :: "build_config \<Rightarrow> TranslationBlock \<Rightarrow> int" where
  "compute_max_insns K tb0 =
     (let m0 = sint (tb_cflags tb0 AND CF_COUNT_MASK K);
          m1 = (if m0 = 0 then sint (CF_COUNT_MASK K) else m0)
      in if m1 > TCG_MAX_INSNS K then TCG_MAX_INSNS K else m1)"

text \<open>
  The code between the loop and the label \<^verbatim>\<open>done_generating\<close>, after \<^verbatim>\<open>gen_io_end\<close>: the
  operations that leave the block, chosen by \<^verbatim>\<open>cs->singlestep_enabled\<close> and
  \<^verbatim>\<open>ctx.bstate\<close>.
\<close>

definition block_exit :: "build_config \<Rightarrow> translate_env \<Rightarrow> DisasContext \<Rightarrow> tcg_op list" where
  "block_exit K E c =
     (if cs_singlestep_enabled E \<noteq> 0 \<and> bstate c \<noteq> BS_BRANCH then
        (if bstate c = BS_NONE then [movi_PC (pc c)] else []) @ [raise_exception_debug]
      else
        (case bstate c of
           BS_STOP \<Rightarrow> gen_goto_tb K c 0 (pc c)
         | BS_NONE \<Rightarrow> [movi_PC (pc c), exit_tb None]
         | BS_BRANCH \<Rightarrow> []))"

definition next_page_start :: "build_config \<Rightarrow> target_ulong \<Rightarrow> target_ulong" where
  "next_page_start K pc_start = (pc_start AND TARGET_PAGE_MASK K) + TARGET_PAGE_SIZE K"

text \<open>The context as initialised before the loop; \<^verbatim>\<open>ctx.opcode\<close> is not set there.\<close>

definition initial_ctx :: "translate_env \<Rightarrow> TranslationBlock \<Rightarrow> DisasContext" where
  "initial_ctx E tb0 =
     \<lparr>tb = tb0, pc = tb_pc tb0, opcode = 0,
      singlestep_enabled = cs_singlestep_enabled E,
      mem_idx = cpu_mmu_index E, bstate = BS_NONE\<rparr>"

definition initial_state :: "translate_env \<Rightarrow> TranslationBlock \<Rightarrow> gen_state" where
  "initial_state E tb0 = \<lparr>ctx = initial_ctx E tb0, num_insns = 0, ops = [tb_start], fetched = []\<rparr>"

text \<open>
  The tail of \<^verbatim>\<open>gen_intermediate_code\<close>, from the end of the loop to \<^verbatim>\<open>gen_tb_end\<close>. A
  loop left by \<^verbatim>\<open>goto done_generating\<close> skips \<^verbatim>\<open>gen_io_end\<close> and the exit code.
\<close>

definition finish_block ::
  "build_config \<Rightarrow> translate_env \<Rightarrow> TranslationBlock \<Rightarrow> loop_end \<times> gen_state \<Rightarrow> gen_state" where
  "finish_block K E tb0 r =
     (let s1 = snd r;
          s2 = (if fst r = Jumped_done_generating then s1
                else
                  let s1' = (if tb_cflags tb0 AND CF_LAST_IO K \<noteq> 0 then emit [io_end] s1 else s1)
                  in emit (block_exit K E (ctx s1')) s1')
      in emit [tb_end (num_insns s2)] s2)"

text \<open>
  \<^verbatim>\<open>gen_intermediate_code\<close>: the block descriptor with \<^verbatim>\<open>size\<close> and \<^verbatim>\<open>icount\<close> set, and
  the final state (context, IR stream, fetch log).
\<close>

definition gen_intermediate_code ::
  "build_config \<Rightarrow> translate_env \<Rightarrow> TranslationBlock \<Rightarrow> TranslationBlock \<times> gen_state" where
  "gen_intermediate_code K E tb0 =
     (let pc_start = tb_pc tb0;
          s = finish_block K E tb0
                (translate_loop K E tb0 (compute_max_insns K tb0) (next_page_start K pc_start)
                   (initial_state E tb0))
      in (tb0\<lparr>tb_size := pc (ctx s) - pc_start, tb_icount := num_insns s\<rparr>, s))"

text \<open>
  The end of the guest page of an address, as a natural number (it is \<open>2 ^ 64\<close> for the
  topmost page, where the 64-bit \<^verbatim>\<open>next_page_start\<close> wraps to 0).
\<close>

definition page_end :: "build_config \<Rightarrow> target_ulong \<Rightarrow> nat" where
  "page_end K a = (unat a div 2 ^ TARGET_PAGE_BITS K + 1) * 2 ^ TARGET_PAGE_BITS K"

text \<open>The operations of a chained exit: the patchable jump and the exit that names the block.\<close>

fun is_chained :: "tcg_op \<Rightarrow> bool" where
  "is_chained (goto_tb n) = True"
| "is_chained (exit_tb (Some n)) = True"
| "is_chained _ = False"

text \<open>How the loop ends when an iteration ends with the given control transfer.\<close>

definition end_of :: "control \<Rightarrow> loop_end" where
  "end_of c =
     (case c of
        Continue \<Rightarrow> While_false
      | Break x \<Rightarrow> Broke x
      | Goto_done_generating \<Rightarrow> Jumped_done_generating)"

section \<open>CPU state, models and TCG globals\<close>

text \<open>\<^verbatim>\<open>struct riscv_def_t\<close> and the table \<^verbatim>\<open>riscv_defs\<close> (64-bit build: RV64G).\<close>

record riscv_def_t =
  name :: string
  init_misa_reg :: "64 word"

definition MCPUID_RV64I :: "64 word" where "MCPUID_RV64I = push_bit (64 - 2) 2"
definition MCPUID_SUPER :: "64 word" where "MCPUID_SUPER = push_bit 18 1"
definition MCPUID_USER :: "64 word" where "MCPUID_USER = push_bit 20 1"
definition MCPUID_I :: "64 word" where "MCPUID_I = push_bit 8 1"
definition MCPUID_M :: "64 word" where "MCPUID_M = push_bit 12 1"
definition MCPUID_A :: "64 word" where "MCPUID_A = push_bit 0 1"
definition MCPUID_F :: "64 word" where "MCPUID_F = push_bit 5 1"
definition MCPUID_D :: "64 word" where "MCPUID_D = push_bit 3 1"

definition riscv_defs :: "riscv_def_t list" where
  "riscv_defs =
     [\<lparr>name = ''riscv'',
       init_misa_reg = MCPUID_RV64I OR MCPUID_SUPER OR MCPUID_USER OR MCPUID_I
                         OR MCPUID_M OR MCPUID_A OR MCPUID_F OR MCPUID_D\<rparr>]"

text \<open>
  \<^verbatim>\<open>strcasecmp\<close> of the C library, in the C locale: both strings are read byte by byte
  through \<^verbatim>\<open>tolower\<close> up to the first difference or the terminating NUL, and the result
  is the difference of the two bytes read last. The end of the list stands for the
  terminator, and so does a NUL byte inside it.
\<close>

definition tolower :: "char \<Rightarrow> char" where
  "tolower c =
     (if 65 \<le> (of_char c :: nat) \<and> (of_char c :: nat) \<le> 90
      then char_of ((of_char c :: nat) + 32) else c)"

definition NUL :: char where
  "NUL = char_of (0 :: nat)"

fun strcasecmp :: "string \<Rightarrow> string \<Rightarrow> int" where
  "strcasecmp [] [] = 0"
| "strcasecmp [] (b # bs) = - int (of_char (tolower b))"
| "strcasecmp (a # as) [] = int (of_char (tolower a))"
| "strcasecmp (a # as) (b # bs) =
     (if tolower a = NUL \<or> tolower a \<noteq> tolower b
      then int (of_char (tolower a)) - int (of_char (tolower b))
      else strcasecmp as bs)"

text \<open>The bytes of a C string: up to the first NUL.\<close>

definition c_str :: "string \<Rightarrow> string" where
  "c_str xs = takeWhile (\<lambda>c. c \<noteq> NUL) xs"

text \<open>
  The loop of \<^verbatim>\<open>cpu_riscv_find_by_name\<close> over a table: the first entry whose name
  compares equal, or \<open>None\<close> for \<^verbatim>\<open>NULL\<close>.
\<close>

fun find_by_name_in :: "riscv_def_t list \<Rightarrow> string \<Rightarrow> riscv_def_t option" where
  "find_by_name_in [] n = None"
| "find_by_name_in (d # ds) n =
     (if strcasecmp n (name d) = 0 then Some d else find_by_name_in ds n)"

definition cpu_riscv_find_by_name :: "string \<Rightarrow> riscv_def_t option" where
  "cpu_riscv_find_by_name n = find_by_name_in riscv_defs n"

text \<open>
  \<^verbatim>\<open>CPURISCVState\<close> is declared outside translate.c; these are the fields the file
  names. The arrays are lists (32 registers each, 4096 control and status registers).
\<close>

record CPURISCVState =
  PC :: target_ulong
  gpr :: "target_ulong list"
  fpr :: "64 word list"
  csr :: "target_ulong list"
  priv :: target_ulong
  load_res :: target_ulong
  cpu_model :: "riscv_def_t option"
  default_nan_mode :: int

record RISCVCPU =
  env :: CPURISCVState
  realized :: bool

text \<open>
  \<^verbatim>\<open>cpu_riscv_init\<close>. \<open>PRV_M\<close> and \<open>CSR_MISA\<close> are constants of a header outside the
  file, and \<open>fresh\<close> is the object \<^verbatim>\<open>object_new(TYPE_RISCV_CPU)\<close> returns; all three are
  parameters. \<open>None\<close> is the \<^verbatim>\<open>NULL\<close> returned for an unknown model.
\<close>

definition cpu_riscv_init :: "target_ulong \<Rightarrow> nat \<Rightarrow> RISCVCPU \<Rightarrow> string \<Rightarrow> RISCVCPU option" where
  "cpu_riscv_init PRV_M CSR_MISA fresh cpu_model_name =
     (case cpu_riscv_find_by_name cpu_model_name of
        None \<Rightarrow> None
      | Some d \<Rightarrow>
          let e1 = (env fresh)\<lparr>cpu_model := Some d\<rparr>;
              e2 = e1\<lparr>csr := replicate 4096 0\<rparr>;
              e3 = e2\<lparr>priv := PRV_M\<rparr>;
              e4 = e3\<lparr>csr := (csr e3)[CSR_MISA := init_misa_reg d]\<rparr>;
              cpu1 = fresh\<lparr>env := e4, realized := True\<rparr>
          in Some (cpu1\<lparr>env := (env cpu1)\<lparr>default_nan_mode := 1\<rparr>\<rparr>))"

text \<open>
  \<^verbatim>\<open>restore_state_to_opc\<close>: \<^verbatim>\<open>data\<close> points to the recovery record; reading
  \<^verbatim>\<open>data[0]\<close> of an empty record is outside the array, which is \<open>None\<close> here.
\<close>

definition restore_state_to_opc ::
  "CPURISCVState \<Rightarrow> TranslationBlock \<Rightarrow> target_ulong list \<Rightarrow> CPURISCVState option" where
  "restore_state_to_opc e tb0 data =
     (case data of [] \<Rightarrow> None | d0 # _ \<Rightarrow> Some (e\<lparr>PC := d0\<rparr>))"

text \<open>
  The TCG globals of the file. A handle is \<open>TCGV_zero\<close> (a static not yet assigned),
  \<open>TCGV_unused\<close> (\<^verbatim>\<open>TCGV_UNUSED\<close>), a global register
  (\<^verbatim>\<open>tcg_global_reg_new_ptr(TCG_AREG0, name)\<close>) or a global that lives in the CPU state
  at \<^verbatim>\<open>offsetof(CPURISCVState, field)\<close>.
\<close>

datatype env_field = F_gpr nat | F_fpr nat | F_PC | F_load_res

datatype tcgv = TCGV_zero | TCGV_unused | TCGV_global_reg string | TCGV_global_mem env_field string

definition regnames :: "string list" where
  "regnames =
     [''zero'', ''ra  '', ''sp  '', ''gp  '', ''tp  '', ''t0  '', ''t1  '', ''t2  '',
      ''s0  '', ''s1  '', ''a0  '', ''a1  '', ''a2  '', ''a3  '', ''a4  '', ''a5  '',
      ''a6  '', ''a7  '', ''s2  '', ''s3  '', ''s4  '', ''s5  '', ''s6  '', ''s7  '',
      ''s8  '', ''s9  '', ''s10 '', ''s11 '', ''t3  '', ''t4  '', ''t5  '', ''t6  '']"

definition fpr_regnames :: "string list" where
  "fpr_regnames =
     [''ft0'', ''ft1'', ''ft2'', ''ft3'', ''ft4'', ''ft5'', ''ft6'', ''ft7'',
      ''fs0'', ''fs1'', ''fa0'', ''fa1'', ''fa2'', ''fa3'', ''fa4'', ''fa5'',
      ''fa6'', ''fa7'', ''fs2'', ''fs3'', ''fs4'', ''fs5'', ''fs6'', ''fs7'',
      ''fs8'', ''fs9'', ''fs10'', ''fs11'', ''ft8'', ''ft9'', ''ft10'', ''ft11'']"

text \<open>
  The file's static handles (\<open>tcg_load_res\<close> is the static \<^verbatim>\<open>load_res\<close>) and the flag
  \<^verbatim>\<open>inited\<close> of \<^verbatim>\<open>riscv_tcg_init\<close>. The two arrays have 32 entries, indexed from 0.
\<close>

record tcg_statics =
  cpu_env :: tcgv
  cpu_gpr :: "nat \<Rightarrow> tcgv"
  cpu_fpr :: "nat \<Rightarrow> tcgv"
  cpu_PC :: tcgv
  tcg_load_res :: tcgv
  inited :: int

definition zero_statics :: tcg_statics where
  "zero_statics =
     \<lparr>cpu_env = TCGV_zero, cpu_gpr = (\<lambda>i. TCGV_zero), cpu_fpr = (\<lambda>i. TCGV_zero),
      cpu_PC = TCGV_zero, tcg_load_res = TCGV_zero, inited = 0\<rparr>"

definition riscv_tcg_init :: "tcg_statics \<Rightarrow> tcg_statics" where
  "riscv_tcg_init st =
     (if inited st \<noteq> 0 then st
      else
        let st1 = st\<lparr>cpu_env := TCGV_global_reg ''env''\<rparr>;
            st2 = st1\<lparr>cpu_gpr := (cpu_gpr st1)(0 := TCGV_unused)\<rparr>;
            st3 = fold (\<lambda>i t. t\<lparr>cpu_gpr := (cpu_gpr t)(i := TCGV_global_mem (F_gpr i) (regnames ! i))\<rparr>)
                    [1..<32] st2;
            st4 = fold (\<lambda>i t. t\<lparr>cpu_fpr := (cpu_fpr t)(i := TCGV_global_mem (F_fpr i) (fpr_regnames ! i))\<rparr>)
                    [0..<32] st3;
            st5 = st4\<lparr>cpu_PC := TCGV_global_mem F_PC ''PC''\<rparr>;
            st6 = st5\<lparr>tcg_load_res := TCGV_global_mem F_load_res ''load_res''\<rparr>
        in st6\<lparr>inited := 1\<rparr>)"

text \<open>Every handle of the file, and the CPU-state field a handle stands for.\<close>

definition all_handles :: "tcg_statics \<Rightarrow> tcgv list" where
  "all_handles st =
     cpu_env st # map (cpu_gpr st) [0..<32] @ map (cpu_fpr st) [0..<32]
       @ [cpu_PC st, tcg_load_res st]"

fun field_of :: "tcgv \<Rightarrow> env_field option" where
  "field_of (TCGV_global_mem f n) = Some f"
| "field_of _ = None"

text \<open>
  Modelled from the spec: \<^verbatim>\<open>gen_set_gpr\<close> and \<^verbatim>\<open>gen_get_gpr\<close>, the helpers that the
  comment in \<^verbatim>\<open>riscv_tcg_init\<close> prescribes for every register access, are not in
  translate.c. The spec gives their contract on the CPU state: \<open>writeRegister(index,
  value)\<close> is a no-op if \<open>index == 0\<close>, and reads of register 0 always observe zero.
\<close>

definition writeRegister :: "CPURISCVState \<Rightarrow> nat \<Rightarrow> target_ulong \<Rightarrow> CPURISCVState" where
  "writeRegister e i v = (if i = 0 then e else e\<lparr>gpr := (gpr e)[i := v]\<rparr>)"

definition readRegister :: "CPURISCVState \<Rightarrow> nat \<Rightarrow> target_ulong" where
  "readRegister e i = (if i = 0 then 0 else gpr e ! i)"

section \<open>Example inputs\<close>

text \<open>
  A configuration with a 4 KiB page, a 15-bit instruction budget field, the I/O flag
  next to it and a limit of 512 instructions per block, for system emulation; an
  environment with no breakpoint, no single-stepping and an IR buffer that never fills;
  and a block that starts at \<open>0x1000\<close> with a budget of two instructions.
\<close>

definition qemu_config :: build_config where
  "qemu_config =
     \<lparr>TARGET_PAGE_BITS = 12, CF_COUNT_MASK = 0x7fff, CF_LAST_IO = 0x8000,
      TCG_MAX_INSNS = 512, CONFIG_USER_ONLY = False\<rparr>"

definition quiet_env :: translate_env where
  "quiet_env =
     \<lparr>cs_singlestep_enabled = 0, cpu_breakpoint_test = (\<lambda>a. False),
      cpu_ldl_code = (\<lambda>a. 0x13), cpu_mmu_index = 0,
      tcg_op_buf_full = (\<lambda>xs. False), singlestep = 0\<rparr>"

definition breakpoint_env :: translate_env where
  "breakpoint_env = quiet_env\<lparr>cpu_breakpoint_test := (\<lambda>a. a = 0x1000)\<rparr>"

definition stepping_env :: translate_env where
  "stepping_env = quiet_env\<lparr>cs_singlestep_enabled := 1\<rparr>"

definition one_insn_env :: translate_env where
  "one_insn_env = quiet_env\<lparr>singlestep := 1\<rparr>"

definition user_only_config :: build_config where
  "user_only_config = qemu_config\<lparr>CONFIG_USER_ONLY := True\<rparr>"

definition example_tb :: TranslationBlock where
  "example_tb = \<lparr>tb_pc = 0x1000, tb_cflags = 2, tb_size = 0, tb_icount = 0\<rparr>"

section \<open>Page arithmetic\<close>

lemma page_size_minus_1: "push_bit n 1 - 1 = (mask n :: target_ulong)"
  by (simp add: mask_eq_exp_minus_1 push_bit_eq_mult)

lemma and_not_mask_push_drop:
  "(a :: target_ulong) AND NOT (mask n) = push_bit n (drop_bit n a)"
  by (rule bit_eqI) (auto simp add: bit_simps)

lemma drop_bit_and_not_mask:
  "drop_bit n ((a :: target_ulong) AND NOT (mask n)) = drop_bit n a"
  by (rule bit_eqI) (auto simp add: bit_simps dest: bit_imp_le_length)

lemma mask_eq_iff_drop_bit:
  "((a :: target_ulong) AND NOT (mask n) = b AND NOT (mask n)) \<longleftrightarrow> drop_bit n a = drop_bit n b"
proof
  assume "a AND NOT (mask n) = b AND NOT (mask n)"
  then have "drop_bit n (a AND NOT (mask n)) = drop_bit n (b AND NOT (mask n))" by simp
  then show "drop_bit n a = drop_bit n b" by (simp only: drop_bit_and_not_mask)
next
  assume "drop_bit n a = drop_bit n b"
  then show "a AND NOT (mask n) = b AND NOT (mask n)" by (simp only: and_not_mask_push_drop)
qed

lemma unat_drop_bit_div: "unat (drop_bit n (a :: target_ulong)) = unat a div 2 ^ n"
proof -
  have "unat (drop_bit n a) = drop_bit n (unat a)" by (rule unat_drop_bit_eq)
  also have "\<dots> = unat a div 2 ^ n" by (rule drop_bit_eq_div)
  finally show ?thesis .
qed

lemma same_page_mask:
  "(a AND TARGET_PAGE_MASK K = b AND TARGET_PAGE_MASK K) \<longleftrightarrow> page_of K a = page_of K b"
proof -
  have "(drop_bit (TARGET_PAGE_BITS K) a = drop_bit (TARGET_PAGE_BITS K) b)
        \<longleftrightarrow> (unat (drop_bit (TARGET_PAGE_BITS K) a) = unat (drop_bit (TARGET_PAGE_BITS K) b))"
    by (simp add: word_unat_eq_iff)
  then show ?thesis
    unfolding TARGET_PAGE_MASK_def TARGET_PAGE_SIZE_def page_size_minus_1
      mask_eq_iff_drop_bit unat_drop_bit_div page_of_def .
qed

lemma unat_two_power: "unat (2 ^ n :: target_ulong) = 2 ^ n mod 2 ^ 64"
proof -
  have "unat (2 ^ n :: target_ulong) = unat (word_of_nat (2 ^ n) :: target_ulong)" by simp
  also have "\<dots> = 2 ^ n mod 2 ^ 64" by (simp only: unat_of_nat) simp
  finally show ?thesis .
qed

lemma unat_page_base:
  "unat ((a :: target_ulong) AND NOT (mask n)) = unat a div 2 ^ n * 2 ^ n"
proof -
  have le: "unat a div 2 ^ n * 2 ^ n \<le> unat a" by simp
  have "unat a < 2 ^ 64" using unsigned_less [of a] by simp
  with le have lt: "unat a div 2 ^ n * 2 ^ n < 2 ^ 64" by linarith
  have "unat (push_bit n (drop_bit n a)) = (unat (drop_bit n a) * 2 ^ n) mod 2 ^ 64"
    by (simp add: push_bit_eq_mult unat_word_ariths unat_two_power mod_mult_right_eq)
  also have "\<dots> = unat a div 2 ^ n * 2 ^ n"
    using lt by (simp add: unat_drop_bit_div)
  finally show ?thesis by (simp only: and_not_mask_push_drop)
qed

lemma unat_next_page_start:
  "unat (next_page_start K a) = page_end K a mod 2 ^ 64"
proof -
  have "unat (next_page_start K a)
        = (unat (a AND NOT (mask (TARGET_PAGE_BITS K)))
           + unat (push_bit (TARGET_PAGE_BITS K) 1 :: target_ulong)) mod 2 ^ 64"
    unfolding next_page_start_def TARGET_PAGE_MASK_def TARGET_PAGE_SIZE_def page_size_minus_1
    by (simp add: unat_word_ariths)
  also have "unat (push_bit (TARGET_PAGE_BITS K) 1 :: target_ulong)
             = 2 ^ TARGET_PAGE_BITS K mod 2 ^ 64"
    by (simp add: push_bit_eq_mult unat_two_power)
  finally show ?thesis
    by (simp add: unat_page_base page_end_def mod_add_right_eq add.commute)
qed

lemma below_next_page_start:
  assumes "a < next_page_start K p"
  shows "unat a < page_end K p"
proof -
  from assms have "unat a < unat (next_page_start K p)" by (simp add: word_less_nat_alt)
  also have "\<dots> \<le> page_end K p" by (simp add: unat_next_page_start)
  finally show ?thesis .
qed

lemma start_below_page_end: "unat p < page_end K p"
  using dividend_less_div_times [of "2 ^ TARGET_PAGE_BITS K" "unat p"]
  by (simp add: page_end_def)

section \<open>One iteration of the loop\<close>

lemma loop_body_step:
  assumes "loop_body K E tb0 m nps s = (c, s')"
  shows "pc (ctx s') = pc (ctx s) + 4" and "num_insns s' = num_insns s + 1"
  using assms
  by (auto simp add: loop_body_def emit_def decode_opc_def Let_def split: if_splits)

lemma loop_body_Continue:
  assumes "loop_body K E tb0 m nps s = (Continue, s')"
  shows "num_insns s' = num_insns s + 1" and "num_insns s' < m"
  using assms
  by (auto simp add: loop_body_def loop_checks_def emit_def decode_opc_def Let_def
      split: if_splits)

lemma loop_body_bstate:
  assumes "loop_body K E tb0 m nps s = (c, s')"
  shows "bstate (ctx s') = (if c = Goto_done_generating then BS_BRANCH else bstate (ctx s))"
  using assms
  by (auto simp add: loop_body_def loop_checks_def emit_def decode_opc_def Let_def
      split: if_splits)

lemma loop_body_fetched:
  assumes "loop_body K E tb0 m nps s = (c, s')"
  shows "fetched s' =
           (if cpu_breakpoint_test E (pc (ctx s)) then fetched s else fetched s @ [pc (ctx s)])"
  using assms
  by (auto simp add: loop_body_def emit_def decode_opc_def Let_def split: if_splits)

lemma loop_body_Continue_pc:
  assumes "loop_body K E tb0 m nps s = (Continue, s')"
  shows "pc (ctx s') < nps"
  using assms
  by (auto simp add: loop_body_def loop_checks_def emit_def decode_opc_def Let_def
      split: if_splits)

lemma loop_body_ops:
  assumes "loop_body K E tb0 m nps s = (c, s')"
  shows "list_ex is_chained (ops s') = list_ex is_chained (ops s)"
  using assms
  by (auto simp add: loop_body_def emit_def decode_opc_def Let_def split: if_splits)

section \<open>The loop as a whole\<close>

lemma translate_loop_unfold:
  "bstate (ctx s) = BS_NONE \<Longrightarrow> loop_body K E tb0 m nps s = (c, s1) \<Longrightarrow>
   translate_loop K E tb0 m nps s =
     (case c of
        Continue \<Rightarrow> translate_loop K E tb0 m nps s1
      | Break x \<Rightarrow> (Broke x, s1)
      | Goto_done_generating \<Rightarrow> (Jumped_done_generating, s1))"
  by (simp add: translate_loop.simps [of K E tb0 m nps s])

lemma translate_loop_closed:
  "bstate (ctx s) \<noteq> BS_NONE \<Longrightarrow> translate_loop K E tb0 m nps s = (While_false, s)"
  by (simp add: translate_loop.simps [of K E tb0 m nps s])

text \<open>
  The invariant rule of the loop: a property that holds at the start and is kept by every
  iteration that goes around again holds before the last iteration, whose result is the
  result of the loop.
\<close>

lemma translate_loop_rule:
  assumes run: "translate_loop K E tb0 m nps s = (e, s')"
    and init: "I s"
    and step: "\<And>t t1. I t \<Longrightarrow> bstate (ctx t) = BS_NONE \<Longrightarrow>
                 loop_body K E tb0 m nps t = (Continue, t1) \<Longrightarrow> I t1"
  shows "(bstate (ctx s) \<noteq> BS_NONE \<and> e = While_false \<and> s' = s) \<or>
         (\<exists>t c. I t \<and> bstate (ctx t) = BS_NONE \<and> loop_body K E tb0 m nps t = (c, s')
                \<and> c \<noteq> Continue \<and> e = end_of c)"
  using run init step
proof (induction K E tb0 m nps s rule: translate_loop.induct)
  case (1 K E tb0 m nps s)
  show ?case
  proof (cases "bstate (ctx s) = BS_NONE")
    case False
    with "1.prems"(1) show ?thesis by (simp add: translate_loop_closed)
  next
    case True
    obtain c s1 where b: "loop_body K E tb0 m nps s = (c, s1)"
      by (cases "loop_body K E tb0 m nps s")
    note u = translate_loop_unfold [OF True b]
    show ?thesis
    proof (cases c)
      case Continue
      with u "1.prems"(1) have r: "translate_loop K E tb0 m nps s1 = (e, s')" by simp
      have i1: "I s1" using "1.prems"(3) [OF "1.prems"(2) True] b Continue by simp
      have "bstate (ctx s1) = BS_NONE" using loop_body_bstate [OF b] Continue True by simp
      from "1.IH" [OF _ b [symmetric] Continue r i1 "1.prems"(3)] True this
      show ?thesis by simp
    next
      case (Break x)
      with u "1.prems"(1) have "e = Broke x" "s' = s1" by simp_all
      with b Break True "1.prems"(2) show ?thesis
        by (auto simp add: end_of_def intro!: exI [of _ s] exI [of _ c])
    next
      case Goto_done_generating
      with u "1.prems"(1) have "e = Jumped_done_generating" "s' = s1" by simp_all
      with b Goto_done_generating True "1.prems"(2) show ?thesis
        by (auto simp add: end_of_def intro!: exI [of _ s] exI [of _ c])
    qed
  qed
qed

lemma translate_loop_pc:
  assumes run: "translate_loop K E tb0 m nps s = (e, s')"
  shows "pc (ctx s') - 4 * word_of_int (num_insns s')
           = pc (ctx s) - 4 * word_of_int (num_insns s)"
proof -
  let ?d = "\<lambda>t. pc (ctx t) - 4 * word_of_int (num_insns t)"
  have body: "?d t1 = ?d t" if "loop_body K E tb0 m nps t = (c, t1)" for t c t1
    using loop_body_step [OF that] by simp
  have "(bstate (ctx s) \<noteq> BS_NONE \<and> e = While_false \<and> s' = s) \<or>
         (\<exists>t c. ?d t = ?d s \<and> bstate (ctx t) = BS_NONE \<and> loop_body K E tb0 m nps t = (c, s')
                \<and> c \<noteq> Continue \<and> e = end_of c)"
    by (rule translate_loop_rule [OF run, of "\<lambda>t. ?d t = ?d s"]) (simp_all add: body)
  then show ?thesis using body by auto
qed

lemma translate_loop_count:
  assumes run: "translate_loop K E tb0 m nps s = (e, s')" and "bstate (ctx s) = BS_NONE"
  shows "num_insns s + 1 \<le> num_insns s' \<and> num_insns s' \<le> max m (num_insns s + 1)"
proof -
  let ?I = "\<lambda>t. num_insns s \<le> num_insns t \<and> (num_insns t = num_insns s \<or> num_insns t < m)"
  have "?I s" by simp
  moreover have "?I t1" if "?I t" and "loop_body K E tb0 m nps t = (Continue, t1)" for t t1
    using that(1) loop_body_Continue [OF that(2)] by simp
  ultimately obtain t c where "?I t" and "loop_body K E tb0 m nps t = (c, s')"
    using translate_loop_rule [OF run, of ?I] assms(2) by blast
  then show ?thesis using loop_body_step(2) [of K E tb0 m nps t c s'] by auto
qed

lemma translate_loop_end:
  assumes run: "translate_loop K E tb0 m nps s = (e, s')" and "bstate (ctx s) = BS_NONE"
  shows "e \<noteq> While_false
       \<and> bstate (ctx s') = (if e = Jumped_done_generating then BS_BRANCH else BS_NONE)"
proof -
  obtain t c where "bstate (ctx t) = BS_NONE" and b: "loop_body K E tb0 m nps t = (c, s')"
    and "c \<noteq> Continue" and "e = end_of c"
    using translate_loop_rule [OF run, of "\<lambda>t. True"] assms(2) by blast
  then show ?thesis using loop_body_bstate [OF b] by (cases c) (simp_all add: end_of_def)
qed

lemma translate_loop_fetched:
  assumes run: "translate_loop K E tb0 m nps s = (e, s')"
    and "\<forall>a\<in>set (fetched s). P a" and "P (pc (ctx s))"
    and below: "\<And>a. a < nps \<Longrightarrow> P a"
  shows "\<forall>a\<in>set (fetched s'). P a"
proof -
  let ?I = "\<lambda>t. (\<forall>a\<in>set (fetched t). P a) \<and> P (pc (ctx t))"
  have "?I s" using assms(2,3) by simp
  moreover have "?I t1" if "?I t" and "loop_body K E tb0 m nps t = (Continue, t1)" for t t1
    using that(1) loop_body_fetched [OF that(2)] below [OF loop_body_Continue_pc [OF that(2)]]
    by (auto split: if_splits)
  ultimately have "(bstate (ctx s) \<noteq> BS_NONE \<and> e = While_false \<and> s' = s) \<or>
         (\<exists>t c. ?I t \<and> bstate (ctx t) = BS_NONE \<and> loop_body K E tb0 m nps t = (c, s')
                \<and> c \<noteq> Continue \<and> e = end_of c)"
    using translate_loop_rule [OF run, of ?I] by blast
  then show ?thesis
  proof
    assume "bstate (ctx s) \<noteq> BS_NONE \<and> e = While_false \<and> s' = s"
    with assms(2) show ?thesis by simp
  next
    assume "\<exists>t c. ?I t \<and> bstate (ctx t) = BS_NONE \<and> loop_body K E tb0 m nps t = (c, s')
                \<and> c \<noteq> Continue \<and> e = end_of c"
    then obtain t c where "?I t" and b: "loop_body K E tb0 m nps t = (c, s')" by blast
    then show ?thesis using loop_body_fetched [OF b] by (auto split: if_splits)
  qed
qed

lemma translate_loop_ops:
  assumes run: "translate_loop K E tb0 m nps s = (e, s')" and "\<not> list_ex is_chained (ops s)"
  shows "\<not> list_ex is_chained (ops s')"
proof -
  let ?I = "\<lambda>t. \<not> list_ex is_chained (ops t)"
  have "?I t1" if "?I t" and "loop_body K E tb0 m nps t = (Continue, t1)" for t t1
    using that by (simp add: loop_body_ops)
  with assms(2) have "(bstate (ctx s) \<noteq> BS_NONE \<and> e = While_false \<and> s' = s) \<or>
         (\<exists>t c. ?I t \<and> bstate (ctx t) = BS_NONE \<and> loop_body K E tb0 m nps t = (c, s')
                \<and> c \<noteq> Continue \<and> e = end_of c)"
    using translate_loop_rule [OF run, of ?I] by blast
  then show ?thesis using assms(2) by (auto simp add: loop_body_ops)
qed

section \<open>The build around the loop\<close>

lemma compute_max_insns_le: "compute_max_insns K tb0 \<le> TCG_MAX_INSNS K"
  by (simp add: compute_max_insns_def Let_def)

lemma sint_and_nonneg:
  fixes c M :: uint32_t
  assumes "0 < sint M"
  shows "0 \<le> sint (c AND M)"
proof -
  from assms have "\<not> bit M 31" using bit_last_iff [of M] by simp
  then have "\<not> bit (c AND M) 31" by (simp add: bit_and_iff)
  then show ?thesis using bit_last_iff [of "c AND M"] by simp
qed

lemma compute_max_insns_pos:
  assumes "0 < TCG_MAX_INSNS K" and "0 < sint (CF_COUNT_MASK K)"
  shows "0 < compute_max_insns K tb0"
  using assms sint_and_nonneg [OF assms(2), of "tb_cflags tb0"]
  by (auto simp add: compute_max_insns_def Let_def)

lemma initial_state_simps:
  "bstate (ctx (initial_state E tb0)) = BS_NONE"
  "pc (ctx (initial_state E tb0)) = tb_pc tb0"
  "num_insns (initial_state E tb0) = 0"
  "fetched (initial_state E tb0) = []"
  "ops (initial_state E tb0) = [tb_start]"
  by (simp_all add: initial_state_def initial_ctx_def)

lemma finish_block_fields:
  "ctx (finish_block K E tb0 (e, s)) = ctx s"
  "num_insns (finish_block K E tb0 (e, s)) = num_insns s"
  "fetched (finish_block K E tb0 (e, s)) = fetched s"
  by (simp_all add: finish_block_def emit_def Let_def)

lemma finish_block_ops:
  "ops (finish_block K E tb0 (e, s)) =
     ops s @ (if e = Jumped_done_generating then []
              else (if tb_cflags tb0 AND CF_LAST_IO K \<noteq> 0 then [io_end] else [])
                   @ block_exit K E (ctx s))
           @ [tb_end (num_insns s)]"
  by (simp add: finish_block_def emit_def Let_def)

lemma gen_intermediate_code_run:
  assumes "translate_loop K E tb0 (compute_max_insns K tb0) (next_page_start K (tb_pc tb0))
             (initial_state E tb0) = (e, s)"
  shows "gen_intermediate_code K E tb0 =
           (tb0\<lparr>tb_size := pc (ctx s) - tb_pc tb0, tb_icount := num_insns s\<rparr>,
            finish_block K E tb0 (e, s))"
  using assms by (simp add: gen_intermediate_code_def Let_def finish_block_fields)

lemma block_exit_debug_not_chained:
  "cs_singlestep_enabled E \<noteq> 0 \<Longrightarrow> \<not> list_ex is_chained (block_exit K E c)"
  by (cases "bstate c") (simp_all add: block_exit_def)

lemma use_goto_tb_user_only:
  "CONFIG_USER_ONLY K \<Longrightarrow> use_goto_tb K c dest = (singlestep_enabled c = 0)"
  by (simp add: use_goto_tb_def)

lemma breakpoint_build:
  assumes "cpu_breakpoint_test E (tb_pc tb0)"
  shows "gen_intermediate_code K E tb0 =
     (tb0\<lparr>tb_size := 4, tb_icount := 1\<rparr>,
      \<lparr>ctx = (initial_ctx E tb0)\<lparr>pc := tb_pc tb0 + 4, bstate := BS_BRANCH\<rparr>,
       num_insns = 1,
       ops = [tb_start, insn_start (tb_pc tb0), movi_PC (tb_pc tb0), raise_exception_debug,
              tb_end 1],
       fetched = []\<rparr>)"
proof -
  let ?s1 = "\<lparr>ctx = (initial_ctx E tb0)\<lparr>pc := tb_pc tb0 + 4, bstate := BS_BRANCH\<rparr>,
       num_insns = 1,
       ops = [tb_start, insn_start (tb_pc tb0), movi_PC (tb_pc tb0), raise_exception_debug],
       fetched = []\<rparr>"
  have b: "loop_body K E tb0 m nps (initial_state E tb0) = (Goto_done_generating, ?s1)" for m nps
    using assms by (simp add: loop_body_def Let_def emit_def initial_state_def initial_ctx_def)
  have "translate_loop K E tb0 m nps (initial_state E tb0) = (Jumped_done_generating, ?s1)"
    for m nps
    using translate_loop_unfold [OF _ b] by (simp add: initial_state_simps)
  from gen_intermediate_code_run [OF this] show ?thesis
    by (simp add: finish_block_def emit_def Let_def)
qed

lemma example_run:
  "translate_loop qemu_config quiet_env example_tb (compute_max_insns qemu_config example_tb)
      (next_page_start qemu_config (tb_pc example_tb)) (initial_state quiet_env example_tb) =
   (Broke Break_max_insns,
    \<lparr>ctx = \<lparr>tb = example_tb, pc = 0x1008, opcode = 0x13, singlestep_enabled = 0, mem_idx = 0,
            bstate = BS_NONE\<rparr>,
     num_insns = 2,
     ops = [tb_start, insn_start 0x1000, insn_start 0x1004],
     fetched = [0x1000, 0x1004]\<rparr>)"
  by (simp add: translate_loop.simps loop_body_def loop_checks_def emit_def decode_opc_def
      compute_max_insns_def next_page_start_def TARGET_PAGE_MASK_def TARGET_PAGE_SIZE_def
      initial_state_def initial_ctx_def qemu_config_def quiet_env_def example_tb_def Let_def)

lemma debug_mode_run:
  assumes "cs_singlestep_enabled E \<noteq> 0"
    and run: "translate_loop K E tb0 m nps (initial_state E tb0) = (e, s)"
    and nb: "bstate (ctx s) \<noteq> BS_BRANCH"
  shows "e = Broke Break_cs_singlestep \<and> bstate (ctx s) = BS_NONE
       \<and> pc (ctx s) = tb_pc tb0 + 4 \<and> num_insns s = 1 \<and> fetched s = [tb_pc tb0]
       \<and> \<not> cpu_breakpoint_test E (tb_pc tb0)"
proof -
  let ?s0 = "initial_state E tb0"
  have o: "bstate (ctx ?s0) = BS_NONE" by (simp add: initial_state_simps)
  obtain c s1 where b: "loop_body K E tb0 m nps ?s0 = (c, s1)"
    by (cases "loop_body K E tb0 m nps ?s0")
  note u = translate_loop_unfold [OF o b]
  show ?thesis
  proof (cases "cpu_breakpoint_test E (tb_pc tb0)")
    case True
    then have "c = Goto_done_generating"
      using b by (simp add: loop_body_def Let_def emit_def initial_state_simps)
    with u run have "s = s1" by simp
    with loop_body_bstate [OF b] \<open>c = Goto_done_generating\<close> nb show ?thesis by simp
  next
    case False
    then have "c = loop_checks E m nps s1"
      using b by (auto simp add: loop_body_def Let_def emit_def decode_opc_def initial_state_simps)
    with assms(1) have c: "c = Break Break_cs_singlestep" by (simp add: loop_checks_def)
    with u run have "e = Broke Break_cs_singlestep" "s = s1" by simp_all
    with loop_body_step [OF b] loop_body_bstate [OF b] loop_body_fetched [OF b] c False
    show ?thesis by (simp add: initial_state_simps)
  qed
qed

lemma stepping_run:
  "translate_loop qemu_config stepping_env example_tb (compute_max_insns qemu_config example_tb)
      (next_page_start qemu_config (tb_pc example_tb)) (initial_state stepping_env example_tb) =
   (Broke Break_cs_singlestep,
    \<lparr>ctx = \<lparr>tb = example_tb, pc = 0x1004, opcode = 0x13, singlestep_enabled = 1, mem_idx = 0,
            bstate = BS_NONE\<rparr>,
     num_insns = 1,
     ops = [tb_start, insn_start 0x1000],
     fetched = [0x1000]\<rparr>)"
  by (simp add: translate_loop.simps loop_body_def loop_checks_def emit_def decode_opc_def
      compute_max_insns_def next_page_start_def TARGET_PAGE_MASK_def TARGET_PAGE_SIZE_def
      initial_state_def initial_ctx_def qemu_config_def quiet_env_def stepping_env_def
      example_tb_def Let_def)

section \<open>Claims about the block builder\<close>

text \<open>
  C1, amended. When a breakpoint is active at the block's start address, the build
  fetches and decodes no instruction; it emits the PC write with the start address
  itself, then the debug exception; it leaves the loop with the state \<open>BS_BRANCH\<close> and
  the PC advanced by one instruction width, so that the block records a size of 4 bytes.
  The counter \<^verbatim>\<open>num_insns\<close> is incremented before the breakpoint test, so the recorded
  instruction count is 1.
\<close>

theorem breakpoint_at_start:
  assumes "cpu_breakpoint_test E (tb_pc tb0)"
  shows "fetched (snd (gen_intermediate_code K E tb0)) = []
       \<and> ops (snd (gen_intermediate_code K E tb0))
           = [tb_start, insn_start (tb_pc tb0), movi_PC (tb_pc tb0), raise_exception_debug,
              tb_end 1]
       \<and> bstate (ctx (snd (gen_intermediate_code K E tb0))) = BS_BRANCH
       \<and> pc (ctx (snd (gen_intermediate_code K E tb0))) = tb_pc tb0 + 4
       \<and> tb_size (fst (gen_intermediate_code K E tb0)) = 4
       \<and> tb_icount (fst (gen_intermediate_code K E tb0)) = 1"
  by (simp add: breakpoint_build [OF assms])

theorem breakpoint_at_start_witness:
  "cpu_breakpoint_test breakpoint_env (tb_pc example_tb)
   \<and> fetched (snd (gen_intermediate_code qemu_config breakpoint_env example_tb)) = []
   \<and> tb_size (fst (gen_intermediate_code qemu_config breakpoint_env example_tb)) = 4
   \<and> tb_icount (fst (gen_intermediate_code qemu_config breakpoint_env example_tb)) = 1"
  using breakpoint_at_start [where E = breakpoint_env and ?tb0.0 = example_tb and K = qemu_config]
  by (simp add: breakpoint_env_def quiet_env_def example_tb_def)

text \<open>
  C1 as stated fails: with a breakpoint at the start address \<open>0x1000\<close> the recorded
  instruction count is 1, not 0, and the PC written before the debug exception is
  \<open>0x1000\<close>, not \<open>0x1004\<close>.
\<close>

theorem breakpoint_at_start_counterexample:
  "cpu_breakpoint_test breakpoint_env (tb_pc example_tb)
   \<and> tb_icount (fst (gen_intermediate_code qemu_config breakpoint_env example_tb)) \<noteq> 0
   \<and> ops (snd (gen_intermediate_code qemu_config breakpoint_env example_tb))
       = [tb_start, insn_start 0x1000, movi_PC 0x1000, raise_exception_debug, tb_end 1]
   \<and> movi_PC (tb_pc example_tb + 4)
       \<notin> set (ops (snd (gen_intermediate_code qemu_config breakpoint_env example_tb)))"
proof -
  have bp: "cpu_breakpoint_test breakpoint_env (tb_pc example_tb)"
    by (simp add: breakpoint_env_def quiet_env_def example_tb_def)
  show ?thesis
    using bp by (simp add: breakpoint_build [OF bp]) (simp add: example_tb_def)
qed

text \<open>
  C2, amended. For every destination address \<^verbatim>\<open>gen_goto_tb\<close> emits the chained form
  (\<^verbatim>\<open>goto_tb\<close>, PC write, exit naming the block) if and only if single-stepping is
  disabled and, in a system-emulation build, the destination lies on the guest page of
  the block's start address; in a user-only build (\<^verbatim>\<open>CONFIG_USER_ONLY\<close> defined) the page
  is not compared. Otherwise it emits the PC write, the debug exception when
  single-stepping is enabled, and the plain exit to the dispatcher.
\<close>

theorem gen_goto_tb_chaining:
  "gen_goto_tb K c n dest =
     (if singlestep_enabled c = 0
         \<and> (CONFIG_USER_ONLY K \<or> page_of K dest = page_of K (tb_pc (tb c)))
      then [goto_tb n, movi_PC dest, exit_tb (Some n)]
      else if singlestep_enabled c \<noteq> 0
        then [movi_PC dest, raise_exception_debug, exit_tb None]
        else [movi_PC dest, exit_tb None])
     \<and> list_ex is_chained (gen_goto_tb K c n dest)
         = (singlestep_enabled c = 0
            \<and> (CONFIG_USER_ONLY K \<or> page_of K dest = page_of K (tb_pc (tb c))))"
  by (auto simp add: gen_goto_tb_def use_goto_tb_def same_page_mask)

theorem gen_goto_tb_chaining_witness:
  "gen_goto_tb qemu_config (initial_ctx quiet_env example_tb) 0 0x1ffc
       = [goto_tb 0, movi_PC 0x1ffc, exit_tb (Some 0)]
   \<and> gen_goto_tb qemu_config (initial_ctx quiet_env example_tb) 0 0x2000
       = [movi_PC 0x2000, exit_tb None]
   \<and> gen_goto_tb qemu_config (initial_ctx stepping_env example_tb) 0 0x1ffc
       = [movi_PC 0x1ffc, raise_exception_debug, exit_tb None]
   \<and> gen_goto_tb user_only_config (initial_ctx quiet_env example_tb) 0 0x2000
       = [goto_tb 0, movi_PC 0x2000, exit_tb (Some 0)]"
  using gen_goto_tb_chaining [of qemu_config "initial_ctx quiet_env example_tb" 0 "0x1ffc"]
    gen_goto_tb_chaining [of qemu_config "initial_ctx quiet_env example_tb" 0 "0x2000"]
    gen_goto_tb_chaining [of qemu_config "initial_ctx stepping_env example_tb" 0 "0x1ffc"]
    gen_goto_tb_chaining [of user_only_config "initial_ctx quiet_env example_tb" 0 "0x2000"]
  by (simp add: user_only_config_def qemu_config_def quiet_env_def stepping_env_def
      example_tb_def initial_ctx_def page_of_def)

text \<open>
  C2 as stated fails in a user-only build: with single-stepping disabled, a destination
  on another guest page (\<open>0x2000\<close>, from a block that starts at \<open>0x1000\<close>) still gets the
  chained form.
\<close>

theorem gen_goto_tb_chaining_counterexample:
  "singlestep_enabled (initial_ctx quiet_env example_tb) = 0
   \<and> page_of user_only_config 0x2000
       \<noteq> page_of user_only_config (tb_pc (tb (initial_ctx quiet_env example_tb)))
   \<and> gen_goto_tb user_only_config (initial_ctx quiet_env example_tb) 0 0x2000
       = [goto_tb 0, movi_PC 0x2000, exit_tb (Some 0)]"
  by (simp add: gen_goto_tb_def use_goto_tb_def user_only_config_def qemu_config_def
      quiet_env_def example_tb_def initial_ctx_def page_of_def)

text \<open>
  C3. Every build, whatever ends it, produces a block whose size is four times its
  instruction count, and the final PC is the start address plus that size. (The bound on
  \<open>TCG_MAX_INSNS\<close> keeps \<open>4 * icount\<close> within 64 bits.) This covers the builds of the
  claim: no breakpoint hit, no trap, no limit reached.
\<close>

theorem block_size_is_four_times_icount:
  assumes "TCG_MAX_INSNS K < 2 ^ 62"
  shows "uint (tb_size (fst (gen_intermediate_code K E tb0)))
           = tb_icount (fst (gen_intermediate_code K E tb0)) * 4
       \<and> pc (ctx (snd (gen_intermediate_code K E tb0)))
           = tb_pc tb0 + tb_size (fst (gen_intermediate_code K E tb0))"
proof -
  obtain e s where run:
    "translate_loop K E tb0 (compute_max_insns K tb0) (next_page_start K (tb_pc tb0))
       (initial_state E tb0) = (e, s)"
    by (cases "translate_loop K E tb0 (compute_max_insns K tb0) (next_page_start K (tb_pc tb0))
       (initial_state E tb0)")
  note g = gen_intermediate_code_run [OF run]
  have p: "pc (ctx s) = tb_pc tb0 + 4 * word_of_int (num_insns s)"
    using translate_loop_pc [OF run] by (simp add: initial_state_simps algebra_simps)
  have "1 \<le> num_insns s" and "num_insns s \<le> max (compute_max_insns K tb0) 1"
    using translate_loop_count [OF run] by (simp_all add: initial_state_simps)
  with compute_max_insns_le [of K tb0] assms
  have n: "0 \<le> num_insns s" "num_insns s < 2 ^ 62" by simp_all
  have "uint (4 * word_of_int (num_insns s) :: target_ulong) = (4 * num_insns s) mod 2 ^ 64"
    by (simp add: uint_word_ariths uint_word_of_int mod_mult_right_eq)
  also have "\<dots> = num_insns s * 4" using n by simp
  finally show ?thesis using p by (simp add: g finish_block_fields)
qed

theorem block_size_is_four_times_icount_witness:
  "TCG_MAX_INSNS qemu_config < 2 ^ 62
   \<and> uint (tb_size (fst (gen_intermediate_code qemu_config quiet_env example_tb)))
       = tb_icount (fst (gen_intermediate_code qemu_config quiet_env example_tb)) * 4
   \<and> tb_icount (fst (gen_intermediate_code qemu_config quiet_env example_tb)) = 2
   \<and> pc (ctx (snd (gen_intermediate_code qemu_config quiet_env example_tb))) = 0x1008"
  using block_size_is_four_times_icount [of qemu_config quiet_env example_tb]
  by (simp add: gen_intermediate_code_run [OF example_run] finish_block_fields)
    (simp add: qemu_config_def example_tb_def)

text \<open>
  C4. With a positive \<open>TCG_MAX_INSNS\<close> and a positive \<open>CF_COUNT_MASK\<close>, every build ends
  with an instruction count of at most \<^verbatim>\<open>max_insns\<close>, and every address it fetches an
  instruction from lies below the end of the guest page of the start address. Where
  \<^verbatim>\<open>next_page_start\<close> has not wrapped to 0 (the start address is below it), this is the
  comparison with the variable itself.
\<close>

theorem icount_and_fetch_bounds:
  assumes "0 < TCG_MAX_INSNS K" and "0 < sint (CF_COUNT_MASK K)"
  shows "tb_icount (fst (gen_intermediate_code K E tb0)) \<le> compute_max_insns K tb0
       \<and> (\<forall>a \<in> set (fetched (snd (gen_intermediate_code K E tb0))).
            unat a < page_end K (tb_pc tb0))
       \<and> (tb_pc tb0 < next_page_start K (tb_pc tb0) \<longrightarrow>
            (\<forall>a \<in> set (fetched (snd (gen_intermediate_code K E tb0))).
               a < next_page_start K (tb_pc tb0)))"
proof -
  obtain e s where run:
    "translate_loop K E tb0 (compute_max_insns K tb0) (next_page_start K (tb_pc tb0))
       (initial_state E tb0) = (e, s)"
    by (cases "translate_loop K E tb0 (compute_max_insns K tb0) (next_page_start K (tb_pc tb0))
       (initial_state E tb0)")
  note g = gen_intermediate_code_run [OF run]
  have "num_insns s \<le> max (compute_max_insns K tb0) 1"
    using translate_loop_count [OF run] by (simp add: initial_state_simps)
  with compute_max_insns_pos [OF assms, of tb0]
  have count: "num_insns s \<le> compute_max_insns K tb0" by simp
  have nat_bound: "\<forall>a \<in> set (fetched s). unat a < page_end K (tb_pc tb0)"
    by (rule translate_loop_fetched [OF run])
      (simp_all add: initial_state_simps start_below_page_end below_next_page_start)
  have word_bound: "\<forall>a \<in> set (fetched s). a < next_page_start K (tb_pc tb0)"
    if "tb_pc tb0 < next_page_start K (tb_pc tb0)"
    by (rule translate_loop_fetched [OF run]) (simp_all add: initial_state_simps that)
  from count nat_bound word_bound show ?thesis
    by (simp add: g finish_block_fields)
qed

theorem icount_and_fetch_bounds_witness:
  "0 < TCG_MAX_INSNS qemu_config \<and> 0 < sint (CF_COUNT_MASK qemu_config)
   \<and> tb_pc example_tb < next_page_start qemu_config (tb_pc example_tb)
   \<and> tb_icount (fst (gen_intermediate_code qemu_config quiet_env example_tb))
       \<le> compute_max_insns qemu_config example_tb
   \<and> list_all (\<lambda>a. a < next_page_start qemu_config (tb_pc example_tb))
       (fetched (snd (gen_intermediate_code qemu_config quiet_env example_tb)))
   \<and> list_all (\<lambda>a. unat a < page_end qemu_config (tb_pc example_tb))
       (fetched (snd (gen_intermediate_code qemu_config quiet_env example_tb)))"
proof -
  have h: "0 < TCG_MAX_INSNS qemu_config" "0 < sint (CF_COUNT_MASK qemu_config)"
    by (simp_all add: qemu_config_def)
  have w: "tb_pc example_tb < next_page_start qemu_config (tb_pc example_tb)"
    by (simp add: next_page_start_def TARGET_PAGE_MASK_def TARGET_PAGE_SIZE_def
        qemu_config_def example_tb_def)
  from icount_and_fetch_bounds [OF h, of quiet_env example_tb] h w show ?thesis
    by (simp add: list_all_iff)
qed

text \<open>
  C5. With \<^verbatim>\<open>cs->singlestep_enabled\<close> set, a build whose loop does not end in state
  \<open>BS_BRANCH\<close> ends it in state \<open>BS_NONE\<close> after one instruction, and the exit code
  writes the current PC and then raises the debug exception: the block's IR is the
  loop's IR, the optional \<^verbatim>\<open>gen_io_end\<close>, the PC write, the debug exception and the block
  end, with no operation of a chained exit. For any context, the exit code writes the PC
  only in state \<open>BS_NONE\<close>, raises the debug exception alone in state \<open>BS_STOP\<close>, and
  emits no operation of a chained exit.
\<close>

theorem debug_mode_exit:
  assumes "cs_singlestep_enabled E \<noteq> 0"
    and "translate_loop K E tb0 (compute_max_insns K tb0) (next_page_start K (tb_pc tb0))
           (initial_state E tb0) = (e, s)"
    and "bstate (ctx s) \<noteq> BS_BRANCH"
  shows "bstate (ctx s) = BS_NONE
       \<and> pc (ctx s) = tb_pc tb0 + 4
       \<and> block_exit K E (ctx s) = [movi_PC (tb_pc tb0 + 4), raise_exception_debug]
       \<and> ops (snd (gen_intermediate_code K E tb0))
           = ops s @ (if tb_cflags tb0 AND CF_LAST_IO K \<noteq> 0 then [io_end] else [])
                   @ [movi_PC (tb_pc tb0 + 4), raise_exception_debug, tb_end 1]
       \<and> \<not> list_ex is_chained (ops (snd (gen_intermediate_code K E tb0)))
       \<and> (bstate c = BS_NONE \<longrightarrow> block_exit K E c = [movi_PC (pc c), raise_exception_debug])
       \<and> (bstate c = BS_STOP \<longrightarrow> block_exit K E c = [raise_exception_debug])
       \<and> \<not> list_ex is_chained (block_exit K E c)"
proof -
  note g = gen_intermediate_code_run [OF assms(2)]
  note r = debug_mode_run [OF assms]
  from r assms(1) have x: "block_exit K E (ctx s) = [movi_PC (tb_pc tb0 + 4), raise_exception_debug]"
    by (simp add: block_exit_def)
  have "\<not> list_ex is_chained (ops s)"
    by (rule translate_loop_ops [OF assms(2)]) (simp add: initial_state_simps)
  with r x assms(1) block_exit_debug_not_chained [OF assms(1), of K c] show ?thesis
    by (simp add: g finish_block_ops block_exit_def)
qed

theorem debug_mode_exit_witness:
  "cs_singlestep_enabled stepping_env \<noteq> 0
   \<and> fst (translate_loop qemu_config stepping_env example_tb
            (compute_max_insns qemu_config example_tb)
            (next_page_start qemu_config (tb_pc example_tb))
            (initial_state stepping_env example_tb)) = Broke Break_cs_singlestep
   \<and> ops (snd (gen_intermediate_code qemu_config stepping_env example_tb))
       = [tb_start, insn_start 0x1000, movi_PC 0x1004, raise_exception_debug, tb_end 1]"
proof -
  have h: "cs_singlestep_enabled stepping_env \<noteq> 0"
    by (simp add: stepping_env_def quiet_env_def)
  have f: "tb_cflags example_tb AND CF_LAST_IO qemu_config = 0" "tb_pc example_tb + 4 = 0x1004"
    by (simp_all add: qemu_config_def example_tb_def)
  from debug_mode_exit [OF h stepping_run, where c = "initial_ctx stepping_env example_tb"]
  have "ops (snd (gen_intermediate_code qemu_config stepping_env example_tb))
       = [tb_start, insn_start 0x1000, movi_PC 0x1004, raise_exception_debug, tb_end 1]"
    by (simp add: f)
  with h show ?thesis by (simp add: stepping_run)
qed

text \<open>
  C6. With \<^verbatim>\<open>cs->singlestep_enabled\<close> clear, when the loop is left through one of its
  \<^verbatim>\<open>break\<close> tests the state is still \<open>BS_NONE\<close>, and the exit code writes the current
  PC and emits the plain exit to the dispatcher: the block's IR is the loop's IR, the
  optional \<^verbatim>\<open>gen_io_end\<close>, the PC write, \<^verbatim>\<open>exit_tb(0)\<close> and the block end, and it holds
  no operation of a chained exit.
\<close>

theorem open_timeout_exit:
  assumes "cs_singlestep_enabled E = 0"
    and "translate_loop K E tb0 (compute_max_insns K tb0) (next_page_start K (tb_pc tb0))
           (initial_state E tb0) = (Broke cause, s)"
  shows "bstate (ctx s) = BS_NONE
       \<and> block_exit K E (ctx s) = [movi_PC (pc (ctx s)), exit_tb None]
       \<and> ops (snd (gen_intermediate_code K E tb0))
           = ops s @ (if tb_cflags tb0 AND CF_LAST_IO K \<noteq> 0 then [io_end] else [])
                   @ [movi_PC (pc (ctx s)), exit_tb None, tb_end (num_insns s)]
       \<and> \<not> list_ex is_chained (ops (snd (gen_intermediate_code K E tb0)))"
proof -
  note g = gen_intermediate_code_run [OF assms(2)]
  have b: "bstate (ctx s) = BS_NONE"
    using translate_loop_end [OF assms(2)] by (simp add: initial_state_simps)
  with assms(1) have x: "block_exit K E (ctx s) = [movi_PC (pc (ctx s)), exit_tb None]"
    by (simp add: block_exit_def)
  have "\<not> list_ex is_chained (ops s)"
    by (rule translate_loop_ops [OF assms(2)]) (simp add: initial_state_simps)
  with b x show ?thesis by (simp add: g finish_block_ops)
qed

theorem open_timeout_exit_witness:
  "cs_singlestep_enabled quiet_env = 0
   \<and> fst (translate_loop qemu_config quiet_env example_tb
            (compute_max_insns qemu_config example_tb)
            (next_page_start qemu_config (tb_pc example_tb))
            (initial_state quiet_env example_tb)) = Broke Break_max_insns
   \<and> ops (snd (gen_intermediate_code qemu_config quiet_env example_tb))
       = [tb_start, insn_start 0x1000, insn_start 0x1004, movi_PC 0x1008, exit_tb None, tb_end 2]"
proof -
  have h: "cs_singlestep_enabled quiet_env = 0" by (simp add: quiet_env_def)
  from open_timeout_exit [OF h example_run] h show ?thesis
    by (simp add: example_run) (simp add: qemu_config_def example_tb_def)
qed

text \<open>
  C7. An iteration that starts in state \<open>BS_NONE\<close> with no breakpoint at the current PC
  advances the PC by 4 and the instruction count by 1 and leaves the state \<open>BS_NONE\<close>;
  then the loop stops at the first of these tests that holds, in this order:
  \<^verbatim>\<open>cs->singlestep_enabled\<close> is set; the PC has reached \<^verbatim>\<open>next_page_start\<close>; the IR
  buffer is full; the instruction count has reached \<^verbatim>\<open>max_insns\<close>; the global
  \<^verbatim>\<open>singlestep\<close> flag is set. If none holds the loop goes around again.
\<close>

theorem loop_iteration_break_order:
  assumes "bstate (ctx s) = BS_NONE" and "\<not> cpu_breakpoint_test E (pc (ctx s))"
  shows "pc (ctx (snd (loop_body K E tb0 m nps s))) = pc (ctx s) + 4
       \<and> num_insns (snd (loop_body K E tb0 m nps s)) = num_insns s + 1
       \<and> bstate (ctx (snd (loop_body K E tb0 m nps s))) = BS_NONE
       \<and> translate_loop K E tb0 m nps s =
           (if cs_singlestep_enabled E \<noteq> 0
              then (Broke Break_cs_singlestep, snd (loop_body K E tb0 m nps s))
            else if nps \<le> pc (ctx s) + 4
              then (Broke Break_page_end, snd (loop_body K E tb0 m nps s))
            else if tcg_op_buf_full E (ops (snd (loop_body K E tb0 m nps s)))
              then (Broke Break_op_buf_full, snd (loop_body K E tb0 m nps s))
            else if m \<le> num_insns s + 1
              then (Broke Break_max_insns, snd (loop_body K E tb0 m nps s))
            else if singlestep E \<noteq> 0
              then (Broke Break_singlestep, snd (loop_body K E tb0 m nps s))
            else translate_loop K E tb0 m nps (snd (loop_body K E tb0 m nps s)))"
proof -
  obtain c s1 where b: "loop_body K E tb0 m nps s = (c, s1)"
    by (cases "loop_body K E tb0 m nps s")
  note st = loop_body_step [OF b]
  have c: "c = loop_checks E m nps s1"
    using b assms(2) by (auto simp add: loop_body_def Let_def emit_def decode_opc_def)
  then have "c \<noteq> Goto_done_generating" by (simp add: loop_checks_def)
  then have bs: "bstate (ctx s1) = BS_NONE" using loop_body_bstate [OF b] assms(1) by simp
  show ?thesis
    using st bs c by (simp add: b translate_loop_unfold [OF assms(1) b] loop_checks_def)
qed

theorem loop_iteration_break_order_witness:
  "bstate (ctx (initial_state one_insn_env example_tb)) = BS_NONE
   \<and> \<not> cpu_breakpoint_test one_insn_env (pc (ctx (initial_state one_insn_env example_tb)))
   \<and> translate_loop qemu_config one_insn_env example_tb 2 0x2000
         (initial_state one_insn_env example_tb)
       = (Broke Break_singlestep,
          snd (loop_body qemu_config one_insn_env example_tb 2 0x2000
                 (initial_state one_insn_env example_tb)))
   \<and> translate_loop qemu_config one_insn_env example_tb 1 0x2000
         (initial_state one_insn_env example_tb)
       = (Broke Break_max_insns,
          snd (loop_body qemu_config one_insn_env example_tb 1 0x2000
                 (initial_state one_insn_env example_tb)))
   \<and> translate_loop qemu_config one_insn_env example_tb 1 0x1004
         (initial_state one_insn_env example_tb)
       = (Broke Break_page_end,
          snd (loop_body qemu_config one_insn_env example_tb 1 0x1004
                 (initial_state one_insn_env example_tb)))"
proof -
  have h: "bstate (ctx (initial_state one_insn_env example_tb)) = BS_NONE"
    "\<not> cpu_breakpoint_test one_insn_env (pc (ctx (initial_state one_insn_env example_tb)))"
    by (simp_all add: initial_state_def initial_ctx_def one_insn_env_def quiet_env_def)
  have v: "cs_singlestep_enabled one_insn_env = 0" "singlestep one_insn_env = 1"
    "tcg_op_buf_full one_insn_env = (\<lambda>xs. False)"
    "pc (ctx (initial_state one_insn_env example_tb)) = 0x1000"
    "num_insns (initial_state one_insn_env example_tb) = 0"
    by (simp_all add: initial_state_def initial_ctx_def one_insn_env_def quiet_env_def
        example_tb_def)
  from loop_iteration_break_order [OF h, of qemu_config example_tb 2 "0x2000"]
    loop_iteration_break_order [OF h, of qemu_config example_tb 1 "0x2000"]
    loop_iteration_break_order [OF h, of qemu_config example_tb 1 "0x1004"] h
  show ?thesis by (simp add: v)
qed

section \<open>Model lookup\<close>

lemma of_char_NUL: "of_char NUL = (0 :: nat)"
  by (simp add: NUL_def)

lemma NUL_iff: "c = NUL \<longleftrightarrow> of_char c = (0 :: nat)"
  using of_char_eq_iff [of c NUL, where ?'a = nat] by (simp add: of_char_NUL)

lemma tolower_NUL_iff: "tolower c = NUL \<longleftrightarrow> c = NUL"
proof -
  have "of_char (tolower c) = (0 :: nat) \<longleftrightarrow> of_char c = (0 :: nat)"
    by (simp add: tolower_def)
  then show ?thesis by (simp only: NUL_iff)
qed

lemma c_str_Cons: "c_str (a # as) = (if a = NUL then [] else a # c_str as)"
  by (simp add: c_str_def)

lemma c_str_Nil: "c_str [] = []"
  by (simp add: c_str_def)

lemma strcasecmp_zero_iff:
  "strcasecmp a b = 0 \<longleftrightarrow> map tolower (c_str a) = map tolower (c_str b)"
proof (induction a b rule: strcasecmp.induct)
  case 1
  show ?case by simp
next
  case (2 b bs)
  have "int (of_char (tolower b)) = 0 \<longleftrightarrow> b = NUL"
    using tolower_NUL_iff [of b] by (simp add: NUL_iff)
  then show ?case by (simp add: c_str_Cons c_str_Nil)
next
  case (3 a as)
  have "int (of_char (tolower a)) = 0 \<longleftrightarrow> a = NUL"
    using tolower_NUL_iff [of a] by (simp add: NUL_iff)
  then show ?case by (simp add: c_str_Cons c_str_Nil)
next
  case (4 a as b bs)
  have za: "int (of_char (tolower x)) = 0 \<longleftrightarrow> x = NUL" for x
    using tolower_NUL_iff [of x] by (simp add: NUL_iff)
  show ?case
  proof (cases "tolower a = NUL")
    case True
    then have "a = NUL" by (simp add: tolower_NUL_iff)
    with True za [of b] show ?thesis by (simp add: c_str_Cons of_char_NUL)
  next
    case False
    then have a: "a \<noteq> NUL" by (simp add: tolower_NUL_iff)
    show ?thesis
    proof (cases "tolower a = tolower b")
      case True
      with False have "b \<noteq> NUL" by (simp add: tolower_NUL_iff)
      with a True False "4.IH" show ?thesis by (simp add: c_str_Cons)
    next
      case ne: False
      then have "int (of_char (tolower a)) - int (of_char (tolower b)) \<noteq> 0"
        by (simp add: of_char_eq_iff)
      with a ne False show ?thesis by (simp add: c_str_Cons)
    qed
  qed
qed

lemma find_by_name_in_None_iff:
  "find_by_name_in ds n = None \<longleftrightarrow> list_all (\<lambda>d. strcasecmp n (name d) \<noteq> 0) ds"
  by (induction ds) simp_all

lemma c_str_riscv: "map tolower (c_str ''riscv'') = ''riscv''"
  by code_simp

text \<open>
  C8. Lookup compares names without regard to case: \<open>RISCV\<close> and \<open>riscv\<close> find the same
  entry of the table, the one entry it has. In general a name is found exactly when its
  bytes, lowered, are \<open>riscv\<close>, and the lookup fails exactly when no entry of the table
  compares equal; \<open>bogus\<close> is such a name. \<^verbatim>\<open>cpu_riscv_init\<close> returns \<^verbatim>\<open>NULL\<close> exactly
  when the lookup fails.
\<close>

theorem model_lookup_case_insensitive:
  "cpu_riscv_find_by_name ''RISCV'' = cpu_riscv_find_by_name ''riscv''
   \<and> cpu_riscv_find_by_name ''riscv'' = Some (riscv_defs ! 0)
   \<and> cpu_riscv_find_by_name ''bogus'' = None
   \<and> cpu_riscv_init PRV_M CSR_MISA fresh ''bogus'' = None
   \<and> cpu_riscv_find_by_name n
       = (if map tolower (c_str n) = ''riscv'' then Some (riscv_defs ! 0) else None)
   \<and> (cpu_riscv_find_by_name n = None)
       = list_all (\<lambda>d. strcasecmp n (name d) \<noteq> 0) riscv_defs
   \<and> (cpu_riscv_init PRV_M CSR_MISA fresh n = None) = (cpu_riscv_find_by_name n = None)"
proof -
  have general: "cpu_riscv_find_by_name m
       = (if map tolower (c_str m) = ''riscv'' then Some (riscv_defs ! 0) else None)" for m
    using strcasecmp_zero_iff [of m "''riscv''"]
    by (simp add: cpu_riscv_find_by_name_def riscv_defs_def c_str_riscv)
  have upper: "map tolower (c_str ''RISCV'') = ''riscv''"
    by code_simp
  have bogus: "map tolower (c_str ''bogus'') \<noteq> ''riscv''"
    by code_simp
  have init: "(cpu_riscv_init PRV_M CSR_MISA fresh m = None) = (cpu_riscv_find_by_name m = None)"
    for m
    by (simp add: cpu_riscv_init_def Let_def split: option.split)
  have none: "(cpu_riscv_find_by_name n = None)
       = list_all (\<lambda>d. strcasecmp n (name d) \<noteq> 0) riscv_defs"
    unfolding cpu_riscv_find_by_name_def by (rule find_by_name_in_None_iff)
  have b: "cpu_riscv_find_by_name ''bogus'' = None"
    using bogus by (simp add: general)
  have "cpu_riscv_find_by_name ''RISCV'' = Some (riscv_defs ! 0)"
    using upper by (simp add: general)
  moreover have "cpu_riscv_find_by_name ''riscv'' = Some (riscv_defs ! 0)"
    using c_str_riscv by (simp add: general)
  moreover have "cpu_riscv_init PRV_M CSR_MISA fresh ''bogus'' = None"
    using b by (simp only: init)
  ultimately show ?thesis using b general [of n] none init [of n] by simp
qed

section \<open>Register 0 and the recovery record\<close>

lemma fold_cpu_gpr:
  "cpu_gpr (fold (\<lambda>i t. t\<lparr>cpu_gpr := (cpu_gpr t)(i := f i)\<rparr>) js st) j
     = (if j \<in> set js then f j else cpu_gpr st j)"
  by (induction js arbitrary: st) auto

lemma fold_cpu_gpr_others:
  "cpu_env (fold (\<lambda>i t. t\<lparr>cpu_gpr := (cpu_gpr t)(i := f i)\<rparr>) js st) = cpu_env st"
  "cpu_fpr (fold (\<lambda>i t. t\<lparr>cpu_gpr := (cpu_gpr t)(i := f i)\<rparr>) js st) = cpu_fpr st"
  by (induction js arbitrary: st) auto

lemma fold_cpu_fpr:
  "cpu_fpr (fold (\<lambda>i t. t\<lparr>cpu_fpr := (cpu_fpr t)(i := f i)\<rparr>) js st) j
     = (if j \<in> set js then f j else cpu_fpr st j)"
  by (induction js arbitrary: st) auto

lemma fold_cpu_fpr_others:
  "cpu_env (fold (\<lambda>i t. t\<lparr>cpu_fpr := (cpu_fpr t)(i := f i)\<rparr>) js st) = cpu_env st"
  "cpu_gpr (fold (\<lambda>i t. t\<lparr>cpu_fpr := (cpu_fpr t)(i := f i)\<rparr>) js st) = cpu_gpr st"
  by (induction js arbitrary: st) auto

lemma riscv_tcg_init_handles:
  assumes "inited st = 0"
  shows "cpu_env (riscv_tcg_init st) = TCGV_global_reg ''env''"
    and "cpu_gpr (riscv_tcg_init st) j =
           (if 1 \<le> j \<and> j < 32 then TCGV_global_mem (F_gpr j) (regnames ! j)
            else if j = 0 then TCGV_unused else cpu_gpr st j)"
    and "cpu_fpr (riscv_tcg_init st) j =
           (if j < 32 then TCGV_global_mem (F_fpr j) (fpr_regnames ! j) else cpu_fpr st j)"
    and "cpu_PC (riscv_tcg_init st) = TCGV_global_mem F_PC ''PC''"
    and "tcg_load_res (riscv_tcg_init st) = TCGV_global_mem F_load_res ''load_res''"
    and "inited (riscv_tcg_init st) = 1"
  using assms
  by (simp_all add: riscv_tcg_init_def Let_def fold_cpu_gpr fold_cpu_gpr_others
      fold_cpu_fpr fold_cpu_fpr_others)

text \<open>
  C9. Writing any value to register 0 and reading it back yields zero: the write is a
  no-op, no write to any register changes the stored register 0, and the read of
  register 0 is the constant zero. On the side of the source, \<^verbatim>\<open>riscv_tcg_init\<close> leaves
  \<^verbatim>\<open>cpu_gpr[0]\<close> unused, allocates the globals of registers 1 to 31, and no handle of
  the file stands for \<^verbatim>\<open>gpr[0]\<close> of the CPU state.
\<close>

theorem register_zero_is_hardwired:
  "readRegister (writeRegister e 0 v) 0 = 0
   \<and> writeRegister e 0 v = e
   \<and> gpr (writeRegister e i v) ! 0 = gpr e ! 0
   \<and> cpu_gpr (riscv_tcg_init zero_statics) 0 = TCGV_unused
   \<and> Some (F_gpr 0) \<notin> set (map field_of (all_handles (riscv_tcg_init zero_statics)))
   \<and> list_all (\<lambda>i. cpu_gpr (riscv_tcg_init zero_statics) i
                      = TCGV_global_mem (F_gpr i) (regnames ! i)) [1..<32]"
proof -
  have z: "inited zero_statics = 0" by (simp add: zero_statics_def)
  note init = riscv_tcg_init_handles [OF z]
  have "gpr (writeRegister e i v) ! 0 = gpr e ! 0"
    by (simp add: writeRegister_def)
  moreover have "cpu_gpr (riscv_tcg_init zero_statics) 0 = TCGV_unused"
    by (simp add: init)
  moreover have "Some (F_gpr 0) \<notin> set (map field_of (all_handles (riscv_tcg_init zero_statics)))"
    by (auto simp add: init all_handles_def split: if_splits)
  moreover have "list_all (\<lambda>i. cpu_gpr (riscv_tcg_init zero_statics) i
                      = TCGV_global_mem (F_gpr i) (regnames ! i)) [1..<32]"
    by (simp add: init list_all_iff)
  ultimately show ?thesis by (simp add: readRegister_def writeRegister_def)
qed

text \<open>
  C10. \<^verbatim>\<open>restore_state_to_opc\<close> returns the CPU state with \<^verbatim>\<open>PC\<close> set to \<^verbatim>\<open>data[0]\<close>
  and every other field as it was.
\<close>

theorem restore_state_to_opc_writes_pc_only:
  "\<exists>e'. restore_state_to_opc e tb0 (d # ds) = Some e'
        \<and> PC e' = d
        \<and> gpr e' = gpr e \<and> fpr e' = fpr e \<and> csr e' = csr e \<and> priv e' = priv e
        \<and> load_res e' = load_res e \<and> cpu_model e' = cpu_model e
        \<and> default_nan_mode e' = default_nan_mode e
        \<and> CPURISCVState.more e' = CPURISCVState.more e
        \<and> e' = e\<lparr>PC := d\<rparr>"
  by (simp add: restore_state_to_opc_def)

end
